theory Spec2Isabelle
  imports Main
begin

section \<open>Data model\<close>

text \<open>
  A Python value found where the flow expects a Path-Set: \<^verbatim>\<open>None\<close>, a \<^verbatim>\<open>str\<close>, a
  \<^verbatim>\<open>list\<close>, a \<^verbatim>\<open>dict\<close> (insertion ordered, so an association list), or a value of
  any other type, for which an \<^verbatim>\<open>int\<close> stands.
\<close>

datatype pval =
    PNone
  | PStr string
  | PList "pval list"
  | PDict "(string \<times> pval) list"
  | PInt int

text \<open>Python truthiness, as tested by \<^verbatim>\<open>if paths:\<close> and \<^verbatim>\<open>if not take_paths\<close>.\<close>

fun truthy :: "pval \<Rightarrow> bool" where
  "truthy PNone = False"
| "truthy (PStr s) = (s \<noteq> [])"
| "truthy (PList xs) = (xs \<noteq> [])"
| "truthy (PDict kvs) = (kvs \<noteq> [])"
| "truthy (PInt i) = (i \<noteq> 0)"

text \<open>
  The requirement kind of a stage input or output. The source holds it as the strings
  \<^verbatim>\<open>"req"\<close>, \<^verbatim>\<open>"maybe"\<close> and \<^verbatim>\<open>"demand"\<close>.
\<close>

datatype req_kind = Req | Maybe | Demand

record stage_io =
  io_name :: string
  io_spec :: req_kind

text \<open>
  A stage, without its mutable \<^verbatim>\<open>value_overrides\<close>, which live in the flow state keyed
  by the stage's name. The stages of a configuration are the values of a dict keyed by
  stage name, so two stage objects of one configuration differ in \<^verbatim>\<open>stage_name\<close>, and
  Python's identity comparison of stage objects is the comparison of these records.
\<close>

record stage =
  stage_name :: string
  takes :: "stage_io list"
  produces :: "stage_io list"

text \<open>The disk: a path either does not exist or has a content.\<close>

type_synonym fs = "string \<rightharpoonup> string"

datatype error =
    DuplicateProvider string string string
  | RequirementTypeError pval
  | NameError string
  | DependencyNotProducedException string string
  | AssertionError
  | KeyError string
  | RecursionError

text \<open>
  \<^verbatim>\<open>flow.py\<close> calls \<^verbatim>\<open>fatal(...)\<close> at lines 205 and 339, but neither defines nor imports
  the name (line 24 imports \<^verbatim>\<open>deep\<close>, \<^verbatim>\<open>sfprint\<close>, the two directory paths and
  \<^verbatim>\<open>F4PGAException\<close>). Python looks the name up before it evaluates the arguments, so
  each of these calls raises \<^verbatim>\<open>NameError\<close> for \<^verbatim>\<open>fatal\<close> and its message is never built.
\<close>

section \<open>Path-Set helpers\<close>

text \<open>
  \<^verbatim>\<open>p_req_exists\<close>. Over a list, \<^verbatim>\<open>False in map(p_req_exists, r)\<close> consumes the lazy map
  up to the first \<^verbatim>\<open>False\<close>, so later members are not visited.
\<close>

fun p_req_exists :: "fs \<Rightarrow> pval \<Rightarrow> error + bool"
  and p_req_exists_list :: "fs \<Rightarrow> pval list \<Rightarrow> error + bool" where
  "p_req_exists d (PStr r) = Inr (d r \<noteq> None)"
| "p_req_exists d (PList rs) = p_req_exists_list d rs"
| "p_req_exists d PNone = Inl (RequirementTypeError PNone)"
| "p_req_exists d (PDict kvs) = Inl (RequirementTypeError (PDict kvs))"
| "p_req_exists d (PInt i) = Inl (RequirementTypeError (PInt i))"
| "p_req_exists_list d [] = Inr True"
| "p_req_exists_list d (r # rs) =
     (case p_req_exists d r of
        Inl e \<Rightarrow> Inl e
      | Inr False \<Rightarrow> Inr False
      | Inr True \<Rightarrow> p_req_exists_list d rs)"

text \<open>
  The Staleness Oracle \<^verbatim>\<open>F4Cache\<close> and the module runtime are collaborators outside the
  source; their operations are parameters. \<^verbatim>\<open>cache_update\<close> returns whether the file
  differs and the cache with the new baseline. The dry-run mapping is returned as the
  items of its dict. A failure inside a module or inside the oracle is theirs and has
  no branch here.
\<close>

record mod_run_ctx =
  ctx_takes :: "string \<rightharpoonup> pval"
  ctx_produces :: "string \<rightharpoonup> pval"
  ctx_values :: "string \<rightharpoonup> pval"

record 'c env =
  process_file :: "fs \<Rightarrow> string \<Rightarrow> 'c \<Rightarrow> 'c"
  cache_update :: "fs \<Rightarrow> string \<Rightarrow> string \<Rightarrow> 'c \<Rightarrow> bool \<times> 'c"
  get_status :: "string \<Rightarrow> string \<Rightarrow> 'c \<Rightarrow> string"
  module_map :: "stage \<Rightarrow> mod_run_ctx \<Rightarrow> fs \<Rightarrow> (string \<times> pval) list"
  module_exec :: "stage \<Rightarrow> mod_run_ctx \<Rightarrow> fs \<Rightarrow> fs"

text \<open>
  \<^verbatim>\<open>p_update_dep_statuses\<close>. The \<^verbatim>\<open>return\<close> inside each \<^verbatim>\<open>for\<close> leaves the loop at its
  first member; an empty list or dict falls through to the call of \<^verbatim>\<open>fatal\<close>.
\<close>

fun p_update_dep_statuses :: "'c env \<Rightarrow> fs \<Rightarrow> pval \<Rightarrow> string \<Rightarrow> 'c \<Rightarrow> error + bool \<times> 'c" where
  "p_update_dep_statuses ev d (PStr p) consumer c = Inr (cache_update ev d p consumer c)"
| "p_update_dep_statuses ev d (PList (p # ps)) consumer c =
     p_update_dep_statuses ev d p consumer c"
| "p_update_dep_statuses ev d (PDict ((k, p) # kvs)) consumer c =
     p_update_dep_statuses ev d p consumer c"
| "p_update_dep_statuses ev d paths consumer c = Inl (NameError ''fatal'')"

text \<open>
  The spec's words for what the status update reaches: the first element of a list or
  mapping, recursively, down to a single path.
\<close>

fun first_member :: "pval \<Rightarrow> string option" where
  "first_member (PStr p) = Some p"
| "first_member (PList (p # ps)) = first_member p"
| "first_member (PDict ((k, p) # kvs)) = first_member p"
| "first_member paths = None"

text \<open>\<^verbatim>\<open>p_dep_differ\<close>. The comprehensions are eager and every member is visited.\<close>

fun p_dep_differ :: "'c env \<Rightarrow> fs \<Rightarrow> pval \<Rightarrow> string \<Rightarrow> 'c \<Rightarrow> bool" where
  "p_dep_differ ev d (PStr p) consumer c =
     (if d p = None then True else get_status ev p consumer c \<noteq> ''same'')"
| "p_dep_differ ev d (PList ps) consumer c =
     (\<exists>p \<in> set ps. p_dep_differ ev d p consumer c)"
| "p_dep_differ ev d (PDict kvs) consumer c =
     (\<exists>kv \<in> set kvs. p_dep_differ ev d (snd kv) consumer c)"
| "p_dep_differ ev d paths consumer c = False"

section \<open>Flow state\<close>

record flow_config =
  stages :: "stage list"
  dependency_overrides :: "(string \<times> pval) list"

text \<open>Messages passed to \<^verbatim>\<open>sfprint\<close>, kept with their verbosity level.\<close>

datatype diag =
    Unreachable string string
  | CausingRebuild string string
  | Unresolved string
  | SkippingRebuild string

text \<open>
  The fields of \<^verbatim>\<open>Flow\<close>, the \<^verbatim>\<open>value_overrides\<close> of every stage (by stage name), the
  disk, and two traces: the stages whose module was executed and the messages printed.
\<close>

record 'c flow =
  os_map :: "string \<rightharpoonup> stage"
  dep_paths :: "string \<rightharpoonup> pval"
  run_stages :: "string set"
  deps_rebuilds :: "string \<rightharpoonup> nat"
  f4cache :: "'c option"
  value_overrides :: "string \<Rightarrow> (string \<rightharpoonup> pval)"
  disk :: fs
  executed :: "string list"
  messages :: "(nat \<times> diag) list"

text \<open>\<^verbatim>\<open>dict.get(k)\<close>: \<^verbatim>\<open>None\<close> for a missing key as for a key bound to \<^verbatim>\<open>None\<close>.\<close>

definition dget :: "(string \<rightharpoonup> pval) \<Rightarrow> string \<Rightarrow> pval" where
  "dget m k = (case m k of None \<Rightarrow> PNone | Some v \<Rightarrow> v)"

text \<open>
  Modelled from the spec: the helper \<^verbatim>\<open>deep\<close> of \<^verbatim>\<open>f4pga.flows.common\<close>, through which
  \<^verbatim>\<open>_cache_deps\<close> registers every path of a Path-Set with the Staleness Oracle,
  recursively over its structure.
\<close>

fun cache_deps :: "'c env \<Rightarrow> fs \<Rightarrow> pval \<Rightarrow> 'c \<Rightarrow> 'c" where
  "cache_deps ev d (PStr p) c = process_file ev d p c"
| "cache_deps ev d (PList ps) c = fold (cache_deps ev d) ps c"
| "cache_deps ev d (PDict kvs) c = fold (\<lambda>kv. cache_deps ev d (snd kv)) kvs c"
| "cache_deps ev d paths c = c"

section \<open>Construction: the Output-Provider Index and the seeded overrides\<close>

text \<open>The inner loop of \<^verbatim>\<open>Flow.__init__\<close> over the outputs of one stage.\<close>

fun claim_outputs :: "stage \<Rightarrow> stage_io list \<Rightarrow> (string \<rightharpoonup> stage) \<Rightarrow> error + (string \<rightharpoonup> stage)" where
  "claim_outputs st [] osm = Inr osm"
| "claim_outputs st (output # outputs) osm =
     (case osm (io_name output) of
        None \<Rightarrow> claim_outputs st outputs (osm(io_name output \<mapsto> st))
      | Some owner \<Rightarrow>
          if owner \<noteq> st
          then Inl (DuplicateProvider (io_name output) (stage_name owner) (stage_name st))
          else claim_outputs st outputs osm)"

fun build_os_map :: "stage list \<Rightarrow> (string \<rightharpoonup> stage) \<Rightarrow> error + (string \<rightharpoonup> stage)" where
  "build_os_map [] osm = Inr osm"
| "build_os_map (st # sts) osm =
     (case claim_outputs st (produces st) osm of
        Inl e \<Rightarrow> Inl e
      | Inr osm' \<Rightarrow> build_os_map sts osm')"

text \<open>
  The comprehension that builds \<^verbatim>\<open>dep_paths\<close> from the dependency overrides, in the
  order of the dict's items; \<^verbatim>\<open>p_req_exists\<close> may raise.
\<close>

fun seed_dep_paths :: "fs \<Rightarrow> (string \<times> pval) list \<Rightarrow> error + (string \<times> pval) list" where
  "seed_dep_paths d [] = Inr []"
| "seed_dep_paths d ((n, p) # rest) =
     (if p \<noteq> PNone then
        (case p_req_exists d p of
           Inl e \<Rightarrow> Inl e
         | Inr ex \<Rightarrow>
             (case seed_dep_paths d rest of
                Inl e \<Rightarrow> Inl e
              | Inr seeded \<Rightarrow> Inr (if ex then (n, p) # seeded else seeded)))
      else seed_dep_paths d rest)"

text \<open>The state of the flow when \<^verbatim>\<open>__init__\<close> reaches its call of the planner.\<close>

definition flow_seed :: "'c env \<Rightarrow> flow_config \<Rightarrow> 'c option \<Rightarrow> fs \<Rightarrow> error + 'c flow" where
  "flow_seed ev cfg cache d =
     (case build_os_map (stages cfg) Map.empty of
        Inl e \<Rightarrow> Inl e
      | Inr osm \<Rightarrow>
          (case seed_dep_paths d (dependency_overrides cfg) of
             Inl e \<Rightarrow> Inl e
           | Inr seeded \<Rightarrow>
               Inr \<lparr> os_map = osm,
                     dep_paths = map_of seeded,
                     run_stages = {},
                     deps_rebuilds = Map.empty,
                     f4cache = map_option (fold (\<lambda>np. cache_deps ev d (snd np)) seeded) cache,
                     value_overrides = (\<lambda>st. Map.empty),
                     disk = d,
                     executed = [],
                     messages = [] \<rparr>))"

section \<open>The Dependency Resolution Planner\<close>

text \<open>
  \<^verbatim>\<open>_config_mod_runctx\<close>: the takes with a truthy Path-Set, and for each produce its
  truthy Path-Set in \<^verbatim>\<open>dep_paths\<close> or else its truthy override.
\<close>

definition config_mod_runctx ::
  "stage \<Rightarrow> (string \<rightharpoonup> pval) \<Rightarrow> (string \<rightharpoonup> pval) \<Rightarrow> (string \<rightharpoonup> pval) \<Rightarrow> mod_run_ctx" where
  "config_mod_runctx st vals dps config_paths =
     \<lparr> ctx_takes = (\<lambda>n. if n \<in> io_name ` set (takes st) \<and> truthy (dget dps n)
                          then dps n else None),
       ctx_produces = (\<lambda>n. if n \<in> io_name ` set (produces st)
                             then (if truthy (dget dps n) then dps n
                                   else if truthy (dget config_paths n) then config_paths n
                                   else None)
                             else None),
       ctx_values = vals \<rparr>"

text \<open>\<^verbatim>\<open>_dep_will_differ\<close>.\<close>

definition dep_will_differ :: "'c env \<Rightarrow> 'c flow \<Rightarrow> string \<Rightarrow> pval \<Rightarrow> string \<Rightarrow> bool" where
  "dep_will_differ ev s dep paths consumer =
     (case f4cache s of
        None \<Rightarrow> True
      | Some c \<Rightarrow>
          (case os_map s dep of
             None \<Rightarrow> p_dep_differ ev (disk s) paths consumer c
           | Some provider \<Rightarrow>
               if stage_name provider \<in> run_stages s then True
               else p_dep_differ ev (disk s) paths consumer c))"

text \<open>The planner's decision \<^verbatim>\<open>will_differ\<close> for one take (lines 162 to 169).\<close>

definition take_will_differ :: "'c env \<Rightarrow> 'c flow \<Rightarrow> string \<Rightarrow> pval \<Rightarrow> string \<Rightarrow> error + bool" where
  "take_will_differ ev s take_name take_paths provider_name =
     (if take_paths = PNone then Inr False
      else (case p_req_exists (disk s) take_paths of
              Inl e \<Rightarrow> Inl e
            | Inr True \<Rightarrow> Inr (dep_will_differ ev s take_name take_paths provider_name)
            | Inr False \<Rightarrow> Inr True))"

text \<open>
  The body of the loop over the provider's takes, after the recursive call (lines 150 to
  180). The flag returned is \<^verbatim>\<open>False\<close> when the loop body executes \<^verbatim>\<open>return\<close>: the
  provider is unreachable.
\<close>

definition note_take ::
  "'c env \<Rightarrow> stage \<Rightarrow> stage_io \<Rightarrow> string set \<Rightarrow> 'c flow \<Rightarrow> error + (bool \<times> string set \<times> 'c flow)" where
  "note_take ev provider tk sk s =
     (let take_paths = dget (dep_paths s) (io_name tk);
          s1 = s\<lparr>value_overrides := (value_overrides s)
                  (stage_name provider :=
                     (value_overrides s (stage_name provider))(CHR '':'' # io_name tk \<mapsto> take_paths))\<rparr>
      in if \<not> truthy take_paths \<and> io_spec tk = Req
         then Inr (False, sk,
                   s1\<lparr>messages := messages s1 @ [(0, Unreachable (stage_name provider) (io_name tk))]\<rparr>)
         else (case take_will_differ ev s1 (io_name tk) take_paths (stage_name provider) of
                 Inl e \<Rightarrow> Inl e
               | Inr False \<Rightarrow> Inr (True, sk, s1)
               | Inr True \<Rightarrow>
                   (let s2 = (if io_name tk \<notin> sk
                              then s1\<lparr>messages := messages s1 @
                                      [(2, CausingRebuild (io_name tk) (stage_name provider))]\<rparr>
                              else s1);
                        s3 = s2\<lparr>run_stages := insert (stage_name provider) (run_stages s2)\<rparr>
                    in (case deps_rebuilds s3 (io_name tk) of
                          None \<Rightarrow> Inl (KeyError (io_name tk))
                        | Some k \<Rightarrow>
                            Inr (True, insert (io_name tk) sk,
                                 s3\<lparr>deps_rebuilds := (deps_rebuilds s3)(io_name tk \<mapsto> Suc k)\<rparr>)))))"

text \<open>Lines 188 to 191: register with the oracle every dry-run output that exists.\<close>

fun cache_outputs :: "'c env \<Rightarrow> (string \<times> pval) list \<Rightarrow> 'c flow \<Rightarrow> error + 'c flow" where
  "cache_outputs ev [] s = Inr s"
| "cache_outputs ev ((k, output_paths) # outs) s =
     (if output_paths \<noteq> PNone then
        (case p_req_exists (disk s) output_paths of
           Inl e \<Rightarrow> Inl e
         | Inr False \<Rightarrow> cache_outputs ev outs s
         | Inr True \<Rightarrow>
             (case f4cache s of
                None \<Rightarrow> cache_outputs ev outs s
              | Some c \<Rightarrow>
                  cache_outputs ev outs
                    (s\<lparr>f4cache := Some (cache_deps ev (disk s) output_paths c)\<rparr>)))
      else cache_outputs ev outs s)"

text \<open>Lines 196 to 198: an output with no file yet flags the provider.\<close>

fun flag_missing_outputs :: "stage \<Rightarrow> (string \<times> pval) list \<Rightarrow> 'c flow \<Rightarrow> error + 'c flow" where
  "flag_missing_outputs provider [] s = Inr s"
| "flag_missing_outputs provider ((k, out_paths) # outs) s =
     (if out_paths \<noteq> PNone then
        (case p_req_exists (disk s) out_paths of
           Inl e \<Rightarrow> Inl e
         | Inr True \<Rightarrow> flag_missing_outputs provider outs s
         | Inr False \<Rightarrow>
             flag_missing_outputs provider outs
               (s\<lparr>run_stages := insert (stage_name provider) (run_stages s)\<rparr>))
      else flag_missing_outputs provider outs s)"

text \<open>
  Lines 202 to 214, one declared output: the call of \<^verbatim>\<open>fatal\<close> raises \<^verbatim>\<open>NameError\<close>,
  and \<^verbatim>\<open>dict.pop\<close> of a missing key raises \<^verbatim>\<open>KeyError\<close>.
\<close>

definition verify_output ::
  "flow_config \<Rightarrow> stage \<Rightarrow> (string \<times> pval) list \<Rightarrow> stage_io \<Rightarrow> 'c flow \<Rightarrow> error + 'c flow" where
  "verify_output cfg provider outputs out s =
     (case (if io_name out \<notin> fst ` set outputs then
              (if io_spec out = Req \<or>
                  (io_spec out = Demand \<and> io_name out \<in> fst ` set (dependency_overrides cfg))
               then Inl (NameError ''fatal'')
               else (case os_map s (io_name out) of
                       None \<Rightarrow> Inl (KeyError (io_name out))
                     | Some owner \<Rightarrow> Inr (s\<lparr>os_map := (os_map s)(io_name out := None)\<rparr>)))
            else Inr s) of
        Inl e \<Rightarrow> Inl e
      | Inr s1 \<Rightarrow>
          (let o_path = dget (map_of outputs) (io_name out)
           in Inr (if o_path \<noteq> PNone
                   then s1\<lparr>value_overrides := (value_overrides s1)
                           (stage_name provider :=
                              (value_overrides s1 (stage_name provider))(CHR '':'' # io_name out \<mapsto> o_path))\<rparr>
                   else s1)))"

fun verify_outputs ::
  "flow_config \<Rightarrow> stage \<Rightarrow> (string \<times> pval) list \<Rightarrow> stage_io list \<Rightarrow> 'c flow \<Rightarrow> error + 'c flow" where
  "verify_outputs cfg provider outputs [] s = Inr s"
| "verify_outputs cfg provider outputs (out # outs) s =
     (case verify_output cfg provider outputs out s of
        Inl e \<Rightarrow> Inl e
      | Inr s1 \<Rightarrow> verify_outputs cfg provider outputs outs s1)"

text \<open>
  Lines 182 to 214: what the planner does for a provider whose takes are all processed.
  The dry-run mapping is a dict, so its keys are distinct. The values of the stage's
  resolution environment come from the configuration, outside the source; the module
  operations take the stage itself, and the context carries the stage's
  \<^verbatim>\<open>value_overrides\<close>, the part of those values that the planner writes.
\<close>

definition finish_provider ::
  "'c env \<Rightarrow> flow_config \<Rightarrow> stage \<Rightarrow> string set \<Rightarrow> string set \<Rightarrow> 'c flow
    \<Rightarrow> error + (string set \<times> string set \<times> 'c flow)" where
  "finish_provider ev cfg provider sc sk s =
     (let outputs = module_map ev provider
                      (config_mod_runctx provider (value_overrides s (stage_name provider))
                         (dep_paths s) (map_of (dependency_overrides cfg)))
                      (disk s)
      in (case cache_outputs ev outputs s of
            Inl e \<Rightarrow> Inl e
          | Inr s1 \<Rightarrow>
              (case flag_missing_outputs provider outputs
                      (s1\<lparr>dep_paths := dep_paths s1 ++ map_of outputs\<rparr>) of
                 Inl e \<Rightarrow> Inl e
               | Inr s2 \<Rightarrow>
                   (case verify_outputs cfg provider outputs (produces provider) s2 of
                      Inl e \<Rightarrow> Inl e
                    | Inr s3 \<Rightarrow> Inr (insert (stage_name provider) sc, sk, s3)))))"

text \<open>
  \<^verbatim>\<open>_resolve_dependencies\<close>, with the sets \<^verbatim>\<open>stages_checked\<close> and \<^verbatim>\<open>skip_dep_warnings\<close>
  that every call shares. The first argument is the depth of recursion still allowed:
  Python raises \<^verbatim>\<open>RecursionError\<close> when it is used up, as on a cyclic stage graph.
\<close>

fun resolve_dependencies ::
  "nat \<Rightarrow> 'c env \<Rightarrow> flow_config \<Rightarrow> string \<Rightarrow> string set \<Rightarrow> string set \<Rightarrow> 'c flow
    \<Rightarrow> error + (string set \<times> string set \<times> 'c flow)"
  and resolve_takes ::
  "nat \<Rightarrow> 'c env \<Rightarrow> flow_config \<Rightarrow> stage \<Rightarrow> stage_io list \<Rightarrow> string set \<Rightarrow> string set \<Rightarrow> 'c flow
    \<Rightarrow> error + (bool \<times> string set \<times> string set \<times> 'c flow)" where
  "resolve_dependencies 0 ev cfg dep sc sk s = Inl RecursionError"
| "resolve_dependencies (Suc n) ev cfg dep sc sk s =
     (let s0 = (if deps_rebuilds s dep = None
                then s\<lparr>deps_rebuilds := (deps_rebuilds s)(dep \<mapsto> 0)\<rparr> else s)
      in if truthy (dget (dep_paths s0) dep) \<and> os_map s0 dep = None then Inr (sc, sk, s0)
         else (case os_map s0 dep of
                 None \<Rightarrow> Inr (sc, sk, s0)
               | Some provider \<Rightarrow>
                   if stage_name provider \<in> sc then Inr (sc, sk, s0)
                   else (case resolve_takes n ev cfg provider (takes provider) sc sk s0 of
                           Inl e \<Rightarrow> Inl e
                         | Inr (False, sc', sk', s') \<Rightarrow> Inr (sc', sk', s')
                         | Inr (True, sc', sk', s') \<Rightarrow> finish_provider ev cfg provider sc' sk' s')))"
| "resolve_takes n ev cfg provider [] sc sk s = Inr (True, sc, sk, s)"
| "resolve_takes n ev cfg provider (tk # rest) sc sk s =
     (case resolve_dependencies n ev cfg (io_name tk) sc sk s of
        Inl e \<Rightarrow> Inl e
      | Inr (sc', sk', s') \<Rightarrow>
          (case note_take ev provider tk sk' s' of
             Inl e \<Rightarrow> Inl e
           | Inr (False, sk'', s'') \<Rightarrow> Inr (False, sc', sk'', s'')
           | Inr (True, sk'', s'') \<Rightarrow> resolve_takes n ev cfg provider rest sc' sk'' s''))"

text \<open>\<^verbatim>\<open>Flow.__init__\<close>: the index, the seeded overrides, then one planning pass.\<close>

definition flow_init ::
  "nat \<Rightarrow> 'c env \<Rightarrow> string \<Rightarrow> flow_config \<Rightarrow> 'c option \<Rightarrow> fs \<Rightarrow> error + 'c flow" where
  "flow_init depth ev target cfg cache d =
     (case flow_seed ev cfg cache d of
        Inl e \<Rightarrow> Inl e
      | Inr s \<Rightarrow>
          (case resolve_dependencies depth ev cfg target {} {} s of
             Inl e \<Rightarrow> Inl e
           | Inr (sc, sk, s') \<Rightarrow> Inr s'))"

section \<open>The Execution Driver\<close>

text \<open>
  Lines 289 to 294, one declared product of the provider that ran. \<^verbatim>\<open>paths\<close> is the
  Path-Set of the artifact \<^verbatim>\<open>dep\<close> being built, read at the entry of \<^verbatim>\<open>_build_dep\<close>.
\<close>

definition check_product ::
  "'c env \<Rightarrow> string \<Rightarrow> stage \<Rightarrow> pval \<Rightarrow> stage_io \<Rightarrow> 'c flow \<Rightarrow> error + 'c flow" where
  "check_product ev dep provider paths product s =
     (case (if io_spec product = Req then p_req_exists (disk s) paths else Inr True) of
        Inl e \<Rightarrow> Inl e
      | Inr False \<Rightarrow> Inl (DependencyNotProducedException dep (stage_name provider))
      | Inr True \<Rightarrow>
          (case dep_paths s (io_name product) of
             None \<Rightarrow> Inl (KeyError (io_name product))
           | Some prod_paths \<Rightarrow>
               if prod_paths \<noteq> PNone then
                 (case p_req_exists (disk s) paths of
                    Inl e \<Rightarrow> Inl e
                  | Inr False \<Rightarrow> Inr s
                  | Inr True \<Rightarrow>
                      (case f4cache s of
                         None \<Rightarrow> Inr s
                       | Some c \<Rightarrow> Inr (s\<lparr>f4cache := Some (cache_deps ev (disk s) prod_paths c)\<rparr>)))
               else Inr s))"

fun check_products ::
  "'c env \<Rightarrow> string \<Rightarrow> stage \<Rightarrow> pval \<Rightarrow> stage_io list \<Rightarrow> 'c flow \<Rightarrow> error + 'c flow" where
  "check_products ev dep provider paths [] s = Inr s"
| "check_products ev dep provider paths (product # rest) s =
     (case check_product ev dep provider paths product s of
        Inl e \<Rightarrow> Inl e
      | Inr s1 \<Rightarrow> check_products ev dep provider paths rest s1)"

text \<open>
  Lines 277 to 296: execute the provider's module, which changes the disk, clear the
  provider from \<^verbatim>\<open>run_stages\<close>, check its products.
\<close>

definition run_provider ::
  "'c env \<Rightarrow> flow_config \<Rightarrow> string \<Rightarrow> stage \<Rightarrow> pval \<Rightarrow> 'c flow \<Rightarrow> error + (bool \<times> 'c flow)" where
  "run_provider ev cfg dep provider paths s =
     (let ctx = config_mod_runctx provider (value_overrides s (stage_name provider))
                  (dep_paths s) (map_of (dependency_overrides cfg));
          s1 = s\<lparr>disk := module_exec ev provider ctx (disk s),
                 executed := executed s @ [stage_name provider],
                 run_stages := run_stages s - {stage_name provider}\<rparr>
      in (case check_products ev dep provider paths (produces provider) s1 of
            Inl e \<Rightarrow> Inl e
          | Inr s2 \<Rightarrow> Inr (True, s2)))"

text \<open>
  \<^verbatim>\<open>_build_dep\<close> and its loop over the provider's takes, which carries the flag
  \<^verbatim>\<open>any_dep_differ\<close>. The first argument bounds the depth of recursion as in the planner.
\<close>

fun build_dep ::
  "nat \<Rightarrow> 'c env \<Rightarrow> flow_config \<Rightarrow> string \<Rightarrow> 'c flow \<Rightarrow> error + (bool \<times> 'c flow)"
  and build_takes ::
  "nat \<Rightarrow> 'c env \<Rightarrow> flow_config \<Rightarrow> stage \<Rightarrow> stage_io list \<Rightarrow> bool \<Rightarrow> 'c flow
    \<Rightarrow> error + (bool \<times> 'c flow)" where
  "build_dep 0 ev cfg dep s = Inl RecursionError"
| "build_dep (Suc n) ev cfg dep s =
     (let paths = dget (dep_paths s) dep
      in if \<not> truthy paths then Inr (False, s\<lparr>messages := messages s @ [(2, Unresolved dep)]\<rparr>)
         else (case p_req_exists (disk s) paths of
                 Inl e \<Rightarrow> Inl e
               | Inr ex \<Rightarrow>
                   if ex \<and> \<not> (case os_map s dep of
                                 None \<Rightarrow> False
                               | Some provider \<Rightarrow> stage_name provider \<in> run_stages s)
                   then Inr (True, s)
                   else (case os_map s dep of
                           None \<Rightarrow> Inl AssertionError
                         | Some provider \<Rightarrow>
                             (case build_takes n ev cfg provider (takes provider) (f4cache s = None) s of
                                Inl e \<Rightarrow> Inl e
                              | Inr (any_dep_differ, s1) \<Rightarrow>
                                  (case (if \<not> any_dep_differ then p_req_exists (disk s1) paths
                                         else Inr False) of
                                     Inl e \<Rightarrow> Inl e
                                   | Inr True \<Rightarrow>
                                       Inr (True, s1\<lparr>messages := messages s1 @ [(2, SkippingRebuild dep)]\<rparr>)
                                   | Inr False \<Rightarrow> run_provider ev cfg dep provider paths s1)))))"
| "build_takes n ev cfg provider [] any_dep_differ s = Inr (any_dep_differ, s)"
| "build_takes n ev cfg provider (p_dep # rest) any_dep_differ s =
     (case build_dep n ev cfg (io_name p_dep) s of
        Inl e \<Rightarrow> Inl e
      | Inr (False, s1) \<Rightarrow>
          if io_spec p_dep = Req then Inl AssertionError
          else build_takes n ev cfg provider rest any_dep_differ s1
      | Inr (True, s1) \<Rightarrow>
          (case f4cache s1 of
             None \<Rightarrow> build_takes n ev cfg provider rest any_dep_differ s1
           | Some c \<Rightarrow>
               (case dep_paths s1 (io_name p_dep) of
                  None \<Rightarrow> Inl (KeyError (io_name p_dep))
                | Some p_dep_paths \<Rightarrow>
                    (case p_update_dep_statuses ev (disk s1) p_dep_paths (stage_name provider) c of
                       Inl e \<Rightarrow> Inl e
                     | Inr (differs, c') \<Rightarrow>
                         build_takes n ev cfg provider rest (any_dep_differ \<or> differs)
                           (s1\<lparr>f4cache := Some c'\<rparr>)))))"

section \<open>Stage sets and fixtures\<close>

text \<open>
  Unique output ownership: no output name is declared by two different stages. One
  stage may declare a name more than once.
\<close>

definition unique_ownership :: "stage list \<Rightarrow> bool" where
  "unique_ownership sts =
     (\<forall>s1 \<in> set sts. \<forall>s2 \<in> set sts. \<forall>o1 \<in> set (produces s1). \<forall>o2 \<in> set (produces s2).
        io_name o1 = io_name o2 \<longrightarrow> s1 = s2)"

text \<open>
  The stages of the spec's scenarios: \<^verbatim>\<open>A\<close> produces \<^verbatim>\<open>x\<close> from nothing, \<^verbatim>\<open>B\<close> produces
  \<^verbatim>\<open>y\<close> from \<^verbatim>\<open>x\<close>; \<^verbatim>\<open>A2\<close> also claims \<^verbatim>\<open>x\<close>; \<^verbatim>\<open>T\<close> declares its optional output
  \<^verbatim>\<open>z\<close> twice.
\<close>

definition stage_A :: stage where
  "stage_A = \<lparr>stage_name = ''A'', takes = [], produces = [\<lparr>io_name = ''x'', io_spec = Req\<rparr>]\<rparr>"

definition stage_B :: stage where
  "stage_B = \<lparr>stage_name = ''B'', takes = [\<lparr>io_name = ''x'', io_spec = Req\<rparr>],
               produces = [\<lparr>io_name = ''y'', io_spec = Req\<rparr>]\<rparr>"

definition stage_A2 :: stage where
  "stage_A2 = \<lparr>stage_name = ''A2'', takes = [], produces = [\<lparr>io_name = ''x'', io_spec = Maybe\<rparr>]\<rparr>"

definition stage_twice :: stage where
  "stage_twice = \<lparr>stage_name = ''T'', takes = [],
      produces = [\<lparr>io_name = ''z'', io_spec = Maybe\<rparr>, \<lparr>io_name = ''z'', io_spec = Maybe\<rparr>]\<rparr>"

text \<open>
  A module runtime and an oracle to run the flow on: each stage maps its output
  \<^verbatim>\<open>n\<close> to the file \<^verbatim>\<open>n.out\<close> and writes it when executed; the oracle logs the files
  registered with it and never reports a difference.
\<close>

definition out_file :: "stage_io \<Rightarrow> string" where
  "out_file out = io_name out @ ''.out''"

definition quiet_env :: "string list env" where
  "quiet_env =
     \<lparr> process_file = (\<lambda>d p c. c @ [p]),
       cache_update = (\<lambda>d p consumer c. (False, c)),
       get_status = (\<lambda>p consumer c. ''same''),
       module_map = (\<lambda>st ctx d. map (\<lambda>out. (io_name out, PStr (out_file out))) (produces st)),
       module_exec = (\<lambda>st ctx d. d ++ map_of (map (\<lambda>out. (out_file out, ''data'')) (produces st))) \<rparr>"

text \<open>
  Overrides for \<^verbatim>\<open>x\<close>, which stage \<^verbatim>\<open>A\<close> produces, for \<^verbatim>\<open>w\<close> and for \<^verbatim>\<open>u\<close>, on a disk
  that holds the file given for \<^verbatim>\<open>x\<close> only.
\<close>

definition cfg_override :: flow_config where
  "cfg_override =
     \<lparr> stages = [stage_A, stage_B],
       dependency_overrides = [(''x'', PStr ''x.v''), (''w'', PStr ''w.v''), (''u'', PNone)] \<rparr>"

definition disk_x :: fs where
  "disk_x = [''x.v'' \<mapsto> ''data'']"

text \<open>The artifacts whose rebuild the Execution Driver reported as skipped.\<close>

fun skipped_rebuilds :: "(nat \<times> diag) list \<Rightarrow> string list" where
  "skipped_rebuilds [] = []"
| "skipped_rebuilds ((lvl, SkippingRebuild dep) # ms) = dep # skipped_rebuilds ms"
| "skipped_rebuilds (m # ms) = skipped_rebuilds ms"

text \<open>Scenario 1 of the spec: stages \<^verbatim>\<open>A\<close> and \<^verbatim>\<open>B\<close>, no overrides.\<close>

definition cfg_AB :: flow_config where
  "cfg_AB = \<lparr> stages = [stage_A, stage_B], dependency_overrides = [] \<rparr>"


text \<open>
  Stage \<^verbatim>\<open>S\<close> declares two required outputs, and a module runtime that writes only the
  first declared output of a stage.
\<close>

definition stage_S :: stage where
  "stage_S = \<lparr>stage_name = ''S'', takes = [],
      produces = [\<lparr>io_name = ''x'', io_spec = Req\<rparr>, \<lparr>io_name = ''y'', io_spec = Req\<rparr>]\<rparr>"

definition cfg_S :: flow_config where
  "cfg_S = \<lparr> stages = [stage_S], dependency_overrides = [] \<rparr>"

definition first_only_env :: "string list env" where
  "first_only_env =
     quiet_env\<lparr>module_exec :=
       (\<lambda>st ctx d. case produces st of [] \<Rightarrow> d | out # outs \<Rightarrow> d(out_file out \<mapsto> ''data''))\<rparr>"

text \<open>
  Scenario 3 of the spec: stage \<^verbatim>\<open>C\<close> declares a required output \<^verbatim>\<open>c\<close> and an optional
  output \<^verbatim>\<open>z\<close>.
\<close>

definition stage_C :: stage where
  "stage_C = \<lparr>stage_name = ''C'', takes = [],
      produces = [\<lparr>io_name = ''c'', io_spec = Req\<rparr>, \<lparr>io_name = ''z'', io_spec = Maybe\<rparr>]\<rparr>"

definition cfg_C :: flow_config where
  "cfg_C = \<lparr> stages = [stage_C], dependency_overrides = [] \<rparr>"

text \<open>
  Stage \<^verbatim>\<open>T\<close> alone; a module runtime whose dry-run mapping is empty, and one whose
  dry-run mapping holds the required outputs only.
\<close>

definition cfg_T :: flow_config where
  "cfg_T = \<lparr> stages = [stage_twice], dependency_overrides = [] \<rparr>"

definition empty_map_env :: "string list env" where
  "empty_map_env = quiet_env\<lparr>module_map := (\<lambda>st ctx d. [])\<rparr>"

definition required_only_env :: "string list env" where
  "required_only_env =
     quiet_env\<lparr>module_map :=
       (\<lambda>st ctx d. map (\<lambda>out. (io_name out, PStr (out_file out)))
                     (filter (\<lambda>out. io_spec out = Req) (produces st)))\<rparr>"





definition disk_xy :: fs where
  "disk_xy = [''x.out'' \<mapsto> ''data'', ''y.out'' \<mapsto> ''data'']"

section \<open>Properties of the Path-Set helpers\<close>

text \<open>
  C5. Given a non-empty list or mapping, the status update does what it does on the
  first member alone, whatever the later members are; in general it makes exactly one
  call of the oracle's update, on the path reached by descending through first members,
  and no call at all when there is no such path.
\<close>

theorem p_update_dep_statuses_first_member_only:
  "p_update_dep_statuses ev d (PList (p # ps)) consumer c = p_update_dep_statuses ev d p consumer c
   \<and> p_update_dep_statuses ev d (PDict ((k, p) # kvs)) consumer c =
       p_update_dep_statuses ev d p consumer c
   \<and> p_update_dep_statuses ev d paths consumer c =
       (case first_member paths of
          Some f \<Rightarrow> Inr (cache_update ev d f consumer c)
        | None \<Rightarrow> Inl (NameError ''fatal''))"
proof -
  have "p_update_dep_statuses ev d paths consumer c =
       (case first_member paths of
          Some f \<Rightarrow> Inr (cache_update ev d f consumer c)
        | None \<Rightarrow> Inl (NameError ''fatal''))"
    by (induction paths rule: first_member.induct) simp_all
  then show ?thesis by simp
qed

text \<open>
  C6. On a value that is neither a path, a list nor a mapping (an integer, or
  \<^verbatim>\<open>None\<close>), the existence check and the status update abort, but the differ check
  returns \<^verbatim>\<open>False\<close>.
\<close>

theorem p_dep_differ_other_type_returns_False:
  "p_dep_differ ev d (PInt 42) consumer c = False
   \<and> p_dep_differ ev d PNone consumer c = False
   \<and> p_req_exists d (PInt 42) = Inl (RequirementTypeError (PInt 42))
   \<and> p_update_dep_statuses ev d (PInt 42) consumer c = Inl (NameError ''fatal'')"
  by simp

section \<open>Properties of the construction\<close>

text \<open>What the loop over one stage's outputs returns, and when it raises.\<close>

lemma claim_outputs_Inr:
  "claim_outputs st outs osm = Inr osm' \<Longrightarrow>
     osm' = (\<lambda>n. if n \<in> io_name ` set outs \<and> osm n = None then Some st else osm n)
     \<and> (\<forall>out \<in> set outs. osm (io_name out) = None \<or> osm (io_name out) = Some st)"
proof (induction outs arbitrary: osm)
  case Nil
  then show ?case by auto
next
  case (Cons out outs)
  show ?case
  proof (cases "osm (io_name out)")
    case None
    with Cons.prems have "claim_outputs st outs (osm(io_name out \<mapsto> st)) = Inr osm'" by simp
    from Cons.IH[OF this] None show ?thesis
      by (auto simp: fun_eq_iff split: if_splits)
  next
    case (Some owner)
    with Cons.prems have eq: "owner = st" and "claim_outputs st outs osm = Inr osm'"
      by (auto split: if_splits)
    from Cons.IH[OF this(2)] Some eq show ?thesis
      by (auto simp: fun_eq_iff split: if_splits)
  qed
qed

lemma claim_outputs_Inl:
  "claim_outputs st outs osm = Inl e \<Longrightarrow>
     \<exists>out \<in> set outs. \<exists>owner. osm (io_name out) = Some owner \<and> owner \<noteq> st
        \<and> e = DuplicateProvider (io_name out) (stage_name owner) (stage_name st)"
proof (induction outs arbitrary: osm)
  case Nil
  then show ?case by simp
next
  case (Cons out outs)
  show ?case
  proof (cases "osm (io_name out)")
    case None
    with Cons.prems have "claim_outputs st outs (osm(io_name out \<mapsto> st)) = Inl e" by simp
    from Cons.IH[OF this] show ?thesis
      by (auto split: if_splits)
  next
    case (Some owner)
    show ?thesis
    proof (cases "owner = st")
      case True
      with Some Cons.prems have "claim_outputs st outs osm = Inl e" by simp
      from Cons.IH[OF this] show ?thesis by auto
    next
      case False
      with Some Cons.prems show ?thesis by auto
    qed
  qed
qed

lemma build_os_map_Inr:
  "build_os_map sts osm = Inr m \<Longrightarrow>
     (\<forall>s \<in> set sts. \<forall>out \<in> set (produces s). m (io_name out) = Some s)
     \<and> (\<forall>n owner. osm n = Some owner \<longrightarrow> m n = Some owner)"
proof (induction sts arbitrary: osm)
  case Nil
  then show ?case by simp
next
  case (Cons st sts)
  from Cons.prems obtain osm' where
    c: "claim_outputs st (produces st) osm = Inr osm'" and b: "build_os_map sts osm' = Inr m"
    by (auto split: sum.splits)
  note co = claim_outputs_Inr[OF c]
  note ih = Cons.IH[OF b]
  have keep: "\<And>n owner. osm n = Some owner \<Longrightarrow> osm' n = Some owner"
    using co by auto
  have own: "\<And>out. out \<in> set (produces st) \<Longrightarrow> osm' (io_name out) = Some st"
    using co by auto
  show ?case using ih keep own by auto
qed

lemma build_os_map_Inl:
  "build_os_map sts osm = Inl e \<Longrightarrow>
     \<exists>n a b. e = DuplicateProvider n (stage_name a) (stage_name b) \<and> a \<noteq> b
        \<and> b \<in> set sts \<and> n \<in> io_name ` set (produces b)
        \<and> (osm n = Some a \<or> (a \<in> set sts \<and> n \<in> io_name ` set (produces a)))"
proof (induction sts arbitrary: osm)
  case Nil
  then show ?case by simp
next
  case (Cons st sts)
  show ?case
  proof (cases "claim_outputs st (produces st) osm")
    case (Inl e')
    with Cons.prems have "e' = e" by simp
    with claim_outputs_Inl[OF Inl] show ?thesis by auto
  next
    case (Inr osm')
    with Cons.prems have b: "build_os_map sts osm' = Inl e" by simp
    from Cons.IH[OF b] obtain n a b where
      h: "e = DuplicateProvider n (stage_name a) (stage_name b)" "a \<noteq> b" "b \<in> set sts"
         "n \<in> io_name ` set (produces b)"
         "osm' n = Some a \<or> (a \<in> set sts \<and> n \<in> io_name ` set (produces a))"
      by blast
    note co = claim_outputs_Inr[OF Inr]
    from h(5) have "osm n = Some a \<or> (a \<in> set (st # sts) \<and> n \<in> io_name ` set (produces a))"
      using co by (auto split: if_splits)
    with h show ?thesis by auto
  qed
qed

lemma build_os_map_unique:
  assumes "unique_ownership sts"
  shows "\<exists>m. build_os_map sts Map.empty = Inr m"
proof (cases "build_os_map sts Map.empty")
  case (Inl e)
  from build_os_map_Inl[OF Inl] assms show ?thesis
    unfolding unique_ownership_def by (auto; blast)
next
  case (Inr m)
  then show ?thesis by simp
qed

lemma build_os_map_not_unique:
  assumes "\<not> unique_ownership sts"
  shows "\<exists>e. build_os_map sts Map.empty = Inl e"
proof (cases "build_os_map sts Map.empty")
  case (Inr m)
  from build_os_map_Inr[OF Inr] assms show ?thesis
    unfolding unique_ownership_def by (auto; metis option.inject)
next
  case (Inl e)
  then show ?thesis by simp
qed

text \<open>
  C4. When every output name has one owner, the index is built and maps every declared
  output to its stage. When two different stages declare the same output, building the
  index raises the duplicate-provider error naming that output and both stages, and so
  does construction whatever the planner's inputs are: the planner is never reached.
\<close>

theorem os_map_construction:
  "(unique_ownership (stages cfg) \<longrightarrow>
      (\<exists>m. build_os_map (stages cfg) Map.empty = Inr m
         \<and> (\<forall>s \<in> set (stages cfg). \<forall>out \<in> set (produces s). m (io_name out) = Some s)))
   \<and> (\<not> unique_ownership (stages cfg) \<longrightarrow>
      (\<exists>n a b. a \<in> set (stages cfg) \<and> b \<in> set (stages cfg) \<and> a \<noteq> b
         \<and> n \<in> io_name ` set (produces a) \<and> n \<in> io_name ` set (produces b)
         \<and> build_os_map (stages cfg) Map.empty = Inl (DuplicateProvider n (stage_name a) (stage_name b))
         \<and> (\<forall>depth ev target cache d. flow_init depth (ev :: 'c env) target cfg cache d =
               Inl (DuplicateProvider n (stage_name a) (stage_name b)))))"
proof (intro conjI impI)
  assume u: "unique_ownership (stages cfg)"
  from build_os_map_unique[OF u] obtain m where m: "build_os_map (stages cfg) Map.empty = Inr m" ..
  from build_os_map_Inr[OF m] m
  show "\<exists>m. build_os_map (stages cfg) Map.empty = Inr m
         \<and> (\<forall>s \<in> set (stages cfg). \<forall>out \<in> set (produces s). m (io_name out) = Some s)"
    by blast
next
  assume nu: "\<not> unique_ownership (stages cfg)"
  from build_os_map_not_unique[OF nu] obtain e where e: "build_os_map (stages cfg) Map.empty = Inl e" ..
  from build_os_map_Inl[OF e] obtain n a b where
    h: "e = DuplicateProvider n (stage_name a) (stage_name b)" "a \<noteq> b" "b \<in> set (stages cfg)"
       "n \<in> io_name ` set (produces b)" "a \<in> set (stages cfg)" "n \<in> io_name ` set (produces a)"
    by auto
  have "\<forall>depth ev target cache d. flow_init depth (ev :: 'c env) target cfg cache d = Inl e"
    using e by (simp add: flow_init_def flow_seed_def)
  with h e show "\<exists>n a b. a \<in> set (stages cfg) \<and> b \<in> set (stages cfg) \<and> a \<noteq> b
         \<and> n \<in> io_name ` set (produces a) \<and> n \<in> io_name ` set (produces b)
         \<and> build_os_map (stages cfg) Map.empty = Inl (DuplicateProvider n (stage_name a) (stage_name b))
         \<and> (\<forall>depth ev target cache d. flow_init depth (ev :: 'c env) target cfg cache d =
               Inl (DuplicateProvider n (stage_name a) (stage_name b)))"
    by blast
qed

theorem os_map_construction_witness:
  "(unique_ownership (stages \<lparr>stages = [stage_A, stage_B], dependency_overrides = []\<rparr>)
    \<and> (\<exists>m. build_os_map [stage_A, stage_B] Map.empty = Inr m
          \<and> m ''x'' = Some stage_A \<and> m ''y'' = Some stage_B))
   \<and> (\<not> unique_ownership (stages \<lparr>stages = [stage_A, stage_A2], dependency_overrides = []\<rparr>)
    \<and> (\<exists>e. build_os_map [stage_A, stage_A2] Map.empty = Inl e))"
proof -
  have u: "unique_ownership (stages \<lparr>stages = [stage_A, stage_B], dependency_overrides = []\<rparr>)"
    by (simp add: unique_ownership_def stage_A_def stage_B_def)
  have nu: "\<not> unique_ownership (stages \<lparr>stages = [stage_A, stage_A2], dependency_overrides = []\<rparr>)"
    by (simp add: unique_ownership_def stage_A_def stage_A2_def)
  from u os_map_construction[of "\<lparr>stages = [stage_A, stage_B], dependency_overrides = []\<rparr>"]
  have 1: "\<exists>m. build_os_map [stage_A, stage_B] Map.empty = Inr m
          \<and> m ''x'' = Some stage_A \<and> m ''y'' = Some stage_B"
    by (simp add: stage_A_def stage_B_def)
  from nu os_map_construction[of "\<lparr>stages = [stage_A, stage_A2], dependency_overrides = []\<rparr>"]
  have 2: "\<exists>e. build_os_map [stage_A, stage_A2] Map.empty = Inl e"
    by auto
  from u nu 1 2 show ?thesis by blast
qed

text \<open>
  C10. A stage that declares one output name twice does not trip the duplicate-provider
  check: with unique ownership among different stages the index is built and maps the
  name to that stage.
\<close>

theorem duplicate_output_within_one_stage:
  assumes "unique_ownership sts"
    and "st \<in> set sts"
    and "2 \<le> count_list (map io_name (produces st)) n"
  shows "\<exists>m. build_os_map sts Map.empty = Inr m \<and> m n = Some st"
proof -
  from build_os_map_unique[OF assms(1)] obtain m where m: "build_os_map sts Map.empty = Inr m" ..
  from assms(3) have "n \<in> set (map io_name (produces st))"
    by (metis count_list_0_iff not_numeral_le_zero)
  then obtain out where "out \<in> set (produces st)" "io_name out = n" by auto
  with build_os_map_Inr[OF m] assms(2) have "m n = Some st" by blast
  with m show ?thesis by simp
qed

theorem duplicate_output_within_one_stage_witness:
  "unique_ownership [stage_A, stage_twice] \<and> stage_twice \<in> set [stage_A, stage_twice]
   \<and> 2 \<le> count_list (map io_name (produces stage_twice)) ''z''
   \<and> (\<exists>m. build_os_map [stage_A, stage_twice] Map.empty = Inr m \<and> m ''z'' = Some stage_twice)"
proof -
  have u: "unique_ownership [stage_A, stage_twice]"
    by (simp add: unique_ownership_def stage_A_def stage_twice_def)
  have i: "stage_twice \<in> set [stage_A, stage_twice]" by simp
  have c: "2 \<le> count_list (map io_name (produces stage_twice)) ''z''"
    by (simp add: stage_twice_def)
  from duplicate_output_within_one_stage[OF u i c] u i c show ?thesis by blast
qed

text \<open>What the comprehension over the overrides keeps, and when it does not raise.\<close>

lemma seed_dep_paths_Inr:
  "seed_dep_paths d ovr = Inr seeded \<Longrightarrow>
     seeded = filter (\<lambda>np. snd np \<noteq> PNone \<and> p_req_exists d (snd np) = Inr True) ovr"
proof (induction ovr arbitrary: seeded)
  case Nil
  then show ?case by simp
next
  case (Cons np ovr)
  obtain n p where np: "np = (n, p)" by (cases np)
  show ?case
  proof (cases "p = PNone")
    case True
    with Cons np show ?thesis by simp
  next
    case False
    with Cons.prems np obtain ex rest where
      "p_req_exists d p = Inr ex" "seed_dep_paths d ovr = Inr rest"
      "seeded = (if ex then (n, p) # rest else rest)"
      by (auto split: sum.splits)
    with Cons.IH[OF this(2)] False np show ?thesis by auto
  qed
qed

lemma seed_dep_paths_total:
  "\<forall>np \<in> set ovr. snd np \<noteq> PNone \<longrightarrow> (\<exists>b. p_req_exists d (snd np) = Inr b) \<Longrightarrow>
     \<exists>seeded. seed_dep_paths d ovr = Inr seeded"
proof (induction ovr)
  case Nil
  then show ?case by simp
next
  case (Cons np ovr)
  obtain n p where np: "np = (n, p)" by (cases np)
  from Cons obtain rest where r: "seed_dep_paths d ovr = Inr rest" by auto
  show ?case
  proof (cases "p = PNone")
    case True
    with r np show ?thesis by simp
  next
    case False
    with Cons.prems np obtain b where "p_req_exists d p = Inr b" by auto
    with r np False show ?thesis by simp
  qed
qed

lemma map_of_filter_distinct:
  "distinct (map fst xs) \<Longrightarrow>
     (map_of (filter P xs) n = Some p) = ((n, p) \<in> set xs \<and> P (n, p))"
proof (induction xs)
  case Nil
  then show ?case by simp
next
  case (Cons x xs)
  obtain k v where x: "x = (k, v)" by (cases x)
  from Cons.prems x have nk: "k \<notin> fst ` set xs" and dx: "distinct (map fst xs)" by auto
  from nk have "map_of (filter P xs) k = None"
    by (simp add: map_of_eq_None_iff image_iff) 
  with Cons.IH[OF dx] x nk show ?case
    by (auto simp: image_iff)
qed

text \<open>
  C2, as the code has it. Construction seeds an override exactly when its value is not
  \<^verbatim>\<open>None\<close> and its Path-Set exists on disk; whether a stage claims the artifact plays no
  part. Construction reaches the planner whenever ownership is unique and the existence
  check raises on no override.
\<close>

theorem override_seeding:
  assumes "unique_ownership (stages cfg)"
    and "distinct (map fst (dependency_overrides cfg))"
    and "\<forall>np \<in> set (dependency_overrides cfg).
           snd np \<noteq> PNone \<longrightarrow> (\<exists>b. p_req_exists d (snd np) = Inr b)"
  shows "\<exists>s. flow_seed ev cfg cache d = Inr s
           \<and> (\<forall>n p. dep_paths s n = Some p \<longleftrightarrow>
                 (n, p) \<in> set (dependency_overrides cfg) \<and> p \<noteq> PNone
                 \<and> p_req_exists d p = Inr True)"
proof -
  from build_os_map_unique[OF assms(1)] obtain m where
    m: "build_os_map (stages cfg) Map.empty = Inr m" ..
  from seed_dep_paths_total[OF assms(3)] obtain seeded where
    sd: "seed_dep_paths d (dependency_overrides cfg) = Inr seeded" ..
  note f = seed_dep_paths_Inr[OF sd]
  have "\<forall>n p. map_of seeded n = Some p \<longleftrightarrow>
          (n, p) \<in> set (dependency_overrides cfg) \<and> p \<noteq> PNone \<and> p_req_exists d p = Inr True"
    unfolding f using map_of_filter_distinct[OF assms(2)] by simp
  with m sd show ?thesis
    by (simp add: flow_seed_def)
qed

theorem override_seeding_witness:
  "unique_ownership (stages cfg_override)
   \<and> distinct (map fst (dependency_overrides cfg_override))
   \<and> (\<exists>s. flow_seed quiet_env cfg_override None disk_x = Inr s
         \<and> dep_paths s ''x'' = Some (PStr ''x.v'') \<and> dep_paths s ''w'' = None
         \<and> dep_paths s ''u'' = None)"
proof -
  have u: "unique_ownership (stages cfg_override)"
    by (simp add: unique_ownership_def cfg_override_def stage_A_def stage_B_def)
  have dk: "distinct (map fst (dependency_overrides cfg_override))"
    by (simp add: cfg_override_def)
  have ok: "\<forall>np \<in> set (dependency_overrides cfg_override).
           snd np \<noteq> PNone \<longrightarrow> (\<exists>b. p_req_exists disk_x (snd np) = Inr b)"
    by (simp add: cfg_override_def)
  from override_seeding[OF u dk ok, of quiet_env None] obtain s where
    s: "flow_seed quiet_env cfg_override None disk_x = Inr s"
       "\<forall>n p. dep_paths s n = Some p \<longleftrightarrow>
                 (n, p) \<in> set (dependency_overrides cfg_override) \<and> p \<noteq> PNone
                 \<and> p_req_exists disk_x p = Inr True"
    by blast
  from s(2) have "dep_paths s ''x'' = Some (PStr ''x.v'')"
    by (simp add: cfg_override_def disk_x_def)
  moreover from s(2) have "dep_paths s ''w'' = None"
    by (cases "dep_paths s ''w''") (auto simp: cfg_override_def disk_x_def)
  moreover from s(2) have "dep_paths s ''u'' = None"
    by (cases "dep_paths s ''u''") (auto simp: cfg_override_def disk_x_def)
  ultimately show ?thesis using u dk s(1) by blast
qed

text \<open>
  C2 as stated fails: the override of \<^verbatim>\<open>x\<close> exists on disk and is seeded, although
  stage \<^verbatim>\<open>A\<close> claims \<^verbatim>\<open>x\<close> as an output.
\<close>

theorem override_seeding_counterexample:
  "map_sum id (\<lambda>s. (dep_paths s ''x'', os_map s ''x''))
     (flow_seed quiet_env cfg_override None disk_x) = Inr (Some (PStr ''x.v''), Some stage_A)"
  by (simp add: flow_seed_def cfg_override_def disk_x_def stage_A_def stage_B_def)

section \<open>Properties of the Execution Driver without a cache\<close>

lemma skipped_rebuilds_append:
  "skipped_rebuilds (xs @ ys) = skipped_rebuilds xs @ skipped_rebuilds ys"
  by (induction xs rule: skipped_rebuilds.induct) simp_all

lemma check_product_no_cache:
  "f4cache s = None \<Longrightarrow> check_product ev dep provider paths product s = Inr s' \<Longrightarrow> s' = s"
  by (auto simp: check_product_def split: sum.splits bool.splits option.splits if_splits)

lemma check_products_no_cache:
  "f4cache s = None \<Longrightarrow> check_products ev dep provider paths products s = Inr s' \<Longrightarrow> s' = s"
proof (induction products arbitrary: s)
  case Nil
  then show ?case by simp
next
  case (Cons product products)
  from Cons.prems obtain s1 where
    1: "check_product ev dep provider paths product s = Inr s1"
    and 2: "check_products ev dep provider paths products s1 = Inr s'"
    by (auto split: sum.splits)
  from check_product_no_cache[OF Cons.prems(1) 1] have "s1 = s" .
  with Cons.IH[of s] Cons.prems(1) 2 show ?case by simp
qed

lemma run_provider_no_cache:
  assumes "f4cache s = None" and "run_provider ev cfg dep provider paths s = Inr (b, s')"
  shows "f4cache s' = None \<and> messages s' = messages s
         \<and> executed s' = executed s @ [stage_name provider]"
proof -
  let ?s1 = "s\<lparr>disk := module_exec ev provider
                 (config_mod_runctx provider (value_overrides s (stage_name provider))
                    (dep_paths s) (map_of (dependency_overrides cfg))) (disk s),
                 executed := executed s @ [stage_name provider],
                 run_stages := run_stages s - {stage_name provider}\<rparr>"
  from assms(2) have c: "check_products ev dep provider paths (produces provider) ?s1 = Inr s'"
    by (auto simp: run_provider_def Let_def split: sum.splits)
  have "f4cache ?s1 = None" using assms(1) by simp
  from check_products_no_cache[OF this c] assms(1) show ?thesis by simp
qed

lemma build_takes_no_cache:
  assumes IH: "\<And>dep s b s'. f4cache s = None \<Longrightarrow> build_dep n ev cfg dep s = Inr (b, s') \<Longrightarrow>
                 f4cache s' = None
                 \<and> skipped_rebuilds (messages s') = skipped_rebuilds (messages s)"
  shows "f4cache s = None \<Longrightarrow> build_takes n ev cfg provider tks flag s = Inr (flag', s') \<Longrightarrow>
           flag' = flag \<and> f4cache s' = None
           \<and> skipped_rebuilds (messages s') = skipped_rebuilds (messages s)"
proof (induction tks arbitrary: s)
  case Nil
  then show ?case by simp
next
  case (Cons p_dep tks)
  from Cons.prems(2) obtain b s1 where
    1: "build_dep n ev cfg (io_name p_dep) s = Inr (b, s1)"
    by (auto split: sum.splits)
  from IH[OF Cons.prems(1) 1] have c1: "f4cache s1 = None"
    and m1: "skipped_rebuilds (messages s1) = skipped_rebuilds (messages s)" by auto
  from Cons.prems(2) 1 c1 have "build_takes n ev cfg provider tks flag s1 = Inr (flag', s')"
    by (cases b) (auto split: if_splits)
  from Cons.IH[OF c1 this] m1 show ?case by simp
qed

lemma build_dep_no_cache:
  "f4cache s = None \<Longrightarrow> build_dep n ev cfg dep s = Inr (b, s') \<Longrightarrow>
     f4cache s' = None \<and> skipped_rebuilds (messages s') = skipped_rebuilds (messages s)"
proof (induction n arbitrary: dep s b s')
  case 0
  then show ?case by simp
next
  case (Suc n)
  let ?paths = "dget (dep_paths s) dep"
  show ?case
  proof (cases "truthy ?paths")
    case False
    with Suc.prems show ?thesis by (auto simp: skipped_rebuilds_append)
  next
    case True
    from Suc.prems(2) True obtain ex where ex: "p_req_exists (disk s) ?paths = Inr ex"
      by (auto simp: Let_def split: sum.splits)
    show ?thesis
    proof (cases "ex \<and> \<not> (case os_map s dep of None \<Rightarrow> False
                               | Some provider \<Rightarrow> stage_name provider \<in> run_stages s)")
      case True
      with Suc.prems \<open>truthy ?paths\<close> ex show ?thesis by (auto simp: Let_def)
    next
      case False
      with Suc.prems(2) \<open>truthy ?paths\<close> ex obtain provider where
        pr: "os_map s dep = Some provider"
        by (cases "os_map s dep") (auto simp: Let_def)
      from Suc.prems(2) \<open>truthy ?paths\<close> ex False pr obtain flag s1 where
        bt: "build_takes n ev cfg provider (takes provider) True s = Inr (flag, s1)"
        using Suc.prems(1) by (auto simp: Let_def split: sum.splits)
      from build_takes_no_cache[OF Suc.IH Suc.prems(1) bt]
      have fl: "flag" and c1: "f4cache s1 = None"
        and m1: "skipped_rebuilds (messages s1) = skipped_rebuilds (messages s)" by auto
      from Suc.prems(2) \<open>truthy ?paths\<close> ex False pr bt fl Suc.prems(1)
      have "run_provider ev cfg dep provider ?paths s1 = Inr (b, s')"
        by (auto simp: Let_def)
      from run_provider_no_cache[OF c1 this] m1 show ?thesis by simp
    qed
  qed
qed

text \<open>What the execution of the provider's module leaves, without a cache.\<close>

lemma run_provider_no_cache_disk:
  assumes "f4cache s = None" and "run_provider ev cfg dep provider paths s = Inr (b, s')"
  shows "disk s' = module_exec ev provider
                 (config_mod_runctx provider (value_overrides s (stage_name provider))
                    (dep_paths s) (map_of (dependency_overrides cfg))) (disk s)
         \<and> run_stages s' = run_stages s - {stage_name provider}"
proof -
  let ?s1 = "s\<lparr>disk := module_exec ev provider
                 (config_mod_runctx provider (value_overrides s (stage_name provider))
                    (dep_paths s) (map_of (dependency_overrides cfg))) (disk s),
                 executed := executed s @ [stage_name provider],
                 run_stages := run_stages s - {stage_name provider}\<rparr>"
  from assms(2) have c: "check_products ev dep provider paths (produces provider) ?s1 = Inr s'"
    by (auto simp: run_provider_def Let_def split: sum.splits)
  have "f4cache ?s1 = None" using assms(1) by simp
  from check_products_no_cache[OF this c] show ?thesis by simp
qed

text \<open>
  C7. Without a Staleness Oracle the planner's \<^verbatim>\<open>_dep_will_differ\<close> is true, so is its
  decision for every take that is present and on disk; the flag \<^verbatim>\<open>any_dep_differ\<close> of
  the Execution Driver starts true and is true after the loop over the takes; a build
  that returns has reported no skipped rebuild; and whenever the artifact is not up to
  date on entry (its Path-Set is missing or its provider is flagged) and the takes are
  built, the build is the execution of the provider's module: if it returns, the module
  was executed after the takes and the disk is what the module left.
\<close>

theorem no_cache_never_short_circuits:
  assumes "f4cache s = None"
  shows "dep_will_differ ev s dep paths consumer
     \<and> (take_paths \<noteq> PNone \<and> p_req_exists (disk s) take_paths = Inr True
          \<longrightarrow> take_will_differ ev s tname take_paths consumer = Inr True)
     \<and> (\<forall>flag s'. build_takes n ev cfg provider tks (f4cache s = None) s = Inr (flag, s')
          \<longrightarrow> flag \<and> f4cache s' = None)
     \<and> (\<forall>b s'. build_dep n ev cfg dep s = Inr (b, s')
          \<longrightarrow> f4cache s' = None
              \<and> skipped_rebuilds (messages s') = skipped_rebuilds (messages s))
     \<and> (\<forall>ex flag s1.
           truthy (dget (dep_paths s) dep) \<and> os_map s dep = Some provider
           \<and> p_req_exists (disk s) (dget (dep_paths s) dep) = Inr ex
           \<and> (\<not> ex \<or> stage_name provider \<in> run_stages s)
           \<and> build_takes n ev cfg provider (takes provider) (f4cache s = None) s = Inr (flag, s1)
          \<longrightarrow> build_dep (Suc n) ev cfg dep s
                = run_provider ev cfg dep provider (dget (dep_paths s) dep) s1
              \<and> (\<forall>b s'. build_dep (Suc n) ev cfg dep s = Inr (b, s')
                    \<longrightarrow> b \<and> executed s' = executed s1 @ [stage_name provider]
                        \<and> disk s' = module_exec ev provider
                             (config_mod_runctx provider (value_overrides s1 (stage_name provider))
                                (dep_paths s1) (map_of (dependency_overrides cfg))) (disk s1)))"
proof -
  have 1: "dep_will_differ ev s dep paths consumer" for dep paths
    using assms by (simp add: dep_will_differ_def)
  have 2: "take_paths \<noteq> PNone \<and> p_req_exists (disk s) take_paths = Inr True
          \<longrightarrow> take_will_differ ev s tname take_paths consumer = Inr True"
    using 1 by (simp add: take_will_differ_def)
  have ih: "\<And>dep s b s'. f4cache s = None \<Longrightarrow> build_dep n ev cfg dep s = Inr (b, s') \<Longrightarrow>
                 f4cache s' = None
                 \<and> skipped_rebuilds (messages s') = skipped_rebuilds (messages s)"
    by (rule build_dep_no_cache)
  have 3: "flag \<and> f4cache s' = None"
    if "build_takes n ev cfg provider tks (f4cache s = None) s = Inr (flag, s')"
    for flag s' provider tks
  proof -
    from that assms have "build_takes n ev cfg provider tks True s = Inr (flag, s')" by simp
    from build_takes_no_cache[where n = n and ev = ev and cfg = cfg, OF ih assms this]
    show ?thesis by simp
  qed
  have 4: "\<forall>b s'. build_dep n ev cfg dep s = Inr (b, s')
          \<longrightarrow> f4cache s' = None
              \<and> skipped_rebuilds (messages s') = skipped_rebuilds (messages s)"
    using build_dep_no_cache[OF assms] by blast
  have 5: "build_dep (Suc n) ev cfg dep s
                = run_provider ev cfg dep provider (dget (dep_paths s) dep) s1
              \<and> (\<forall>b s'. build_dep (Suc n) ev cfg dep s = Inr (b, s')
                    \<longrightarrow> b \<and> executed s' = executed s1 @ [stage_name provider]
                        \<and> disk s' = module_exec ev provider
                             (config_mod_runctx provider (value_overrides s1 (stage_name provider))
                                (dep_paths s1) (map_of (dependency_overrides cfg))) (disk s1))"
    if h: "truthy (dget (dep_paths s) dep)" "os_map s dep = Some provider"
          "p_req_exists (disk s) (dget (dep_paths s) dep) = Inr ex"
          "\<not> ex \<or> stage_name provider \<in> run_stages s"
          "build_takes n ev cfg provider (takes provider) (f4cache s = None) s = Inr (flag, s1)"
    for ex flag s1
  proof -
    from 3[OF h(5)] have fl: "flag" and c1: "f4cache s1 = None" by auto
    have eq: "build_dep (Suc n) ev cfg dep s
                = run_provider ev cfg dep provider (dget (dep_paths s) dep) s1"
      using h fl by (auto simp: Let_def)
    have rp: "b \<and> executed s' = executed s1 @ [stage_name provider]
             \<and> disk s' = module_exec ev provider
                             (config_mod_runctx provider (value_overrides s1 (stage_name provider))
                                (dep_paths s1) (map_of (dependency_overrides cfg))) (disk s1)"
      if r: "run_provider ev cfg dep provider (dget (dep_paths s) dep) s1 = Inr (b, s')" for b s'
    proof -
      from r have "b" by (auto simp: run_provider_def Let_def split: sum.splits)
      with run_provider_no_cache[OF c1 r] run_provider_no_cache_disk[OF c1 r]
      show ?thesis by simp
    qed
    show ?thesis unfolding eq using rp by blast
  qed
  from 1 2 3 4 5 show ?thesis by blast
qed

text \<open>The equations that evaluate the planner and the driver on the fixtures.\<close>

lemmas fixture_defs = cfg_AB_def stage_A_def stage_B_def quiet_env_def out_file_def
lemmas planner_defs = flow_init_def flow_seed_def Let_def
       finish_provider_def note_take_def take_will_differ_def dep_will_differ_def verify_output_def
       config_mod_runctx_def dget_def
lemmas driver_defs = run_provider_def check_product_def

text \<open>
  Stages \<^verbatim>\<open>A\<close> and \<^verbatim>\<open>B\<close> without a cache, on a disk that holds the files of \<^verbatim>\<open>x\<close> and
  \<^verbatim>\<open>y\<close>: the planner decides that the take \<^verbatim>\<open>x\<close>, present and on disk, differs, and
  flags \<^verbatim>\<open>B\<close>; the build of \<^verbatim>\<open>y\<close> executes \<^verbatim>\<open>B\<close> although \<^verbatim>\<open>y\<close> exists.
\<close>

theorem no_cache_never_short_circuits_witness:
  "\<exists>s. flow_init 3 quiet_env ''y'' cfg_AB None disk_xy = Inr s
      \<and> f4cache s = None
      \<and> p_req_exists (disk s) (PStr ''x.out'') = Inr True
      \<and> p_req_exists (disk s) (PStr ''y.out'') = Inr True
      \<and> take_will_differ quiet_env s ''x'' (PStr ''x.out'') ''B'' = Inr True
      \<and> ''A'' \<notin> run_stages s \<and> ''B'' \<in> run_stages s
      \<and> (\<exists>s'. build_dep 3 quiet_env cfg_AB ''y'' s = Inr (True, s')
             \<and> executed s' = [''B'']
             \<and> f4cache s' = None \<and> skipped_rebuilds (messages s') = [])"
proof -
  have "\<exists>s. flow_init 3 quiet_env ''y'' cfg_AB None disk_xy = Inr s
      \<and> f4cache s = None
      \<and> p_req_exists (disk s) (PStr ''x.out'') = Inr True
      \<and> p_req_exists (disk s) (PStr ''y.out'') = Inr True
      \<and> ''A'' \<notin> run_stages s \<and> ''B'' \<in> run_stages s
      \<and> skipped_rebuilds (messages s) = []
      \<and> dget (dep_paths s) ''y'' = PStr ''y.out''
      \<and> os_map s ''y'' = Some stage_B
      \<and> (\<exists>s1. build_takes 2 quiet_env cfg_AB stage_B (takes stage_B) (f4cache s = None) s
                  = Inr (True, s1)
             \<and> executed s1 = []
             \<and> (\<exists>s'. run_provider quiet_env cfg_AB ''y'' stage_B (PStr ''y.out'') s1
                        = Inr (True, s')))"
    by (simp add: planner_defs driver_defs fixture_defs disk_xy_def eval_nat_numeral)
  then obtain s s1 s' where
    s: "flow_init 3 quiet_env ''y'' cfg_AB None disk_xy = Inr s"
       "f4cache s = None"
       "p_req_exists (disk s) (PStr ''x.out'') = Inr True"
       "p_req_exists (disk s) (PStr ''y.out'') = Inr True"
       "''A'' \<notin> run_stages s" "''B'' \<in> run_stages s"
       "skipped_rebuilds (messages s) = []"
       "dget (dep_paths s) ''y'' = PStr ''y.out''"
       "os_map s ''y'' = Some stage_B"
       "build_takes 2 quiet_env cfg_AB stage_B (takes stage_B) (f4cache s = None) s = Inr (True, s1)"
       "executed s1 = []"
       "run_provider quiet_env cfg_AB ''y'' stage_B (PStr ''y.out'') s1 = Inr (True, s')"
    by blast
  note th = no_cache_never_short_circuits[OF s(2), where ev = quiet_env and dep = "''y''"
      and take_paths = "PStr ''x.out''" and tname = "''x''" and consumer = "''B''"
      and n = 2 and cfg = cfg_AB and provider = stage_B and tks = "takes stage_B"
      and paths = "PStr ''x.out''"]
  from th s(3) have twd: "take_will_differ quiet_env s ''x'' (PStr ''x.out'') ''B'' = Inr True"
    by blast
  have pre: "truthy (dget (dep_paths s) ''y'') \<and> os_map s ''y'' = Some stage_B
           \<and> p_req_exists (disk s) (dget (dep_paths s) ''y'') = Inr True
           \<and> (\<not> True \<or> stage_name stage_B \<in> run_stages s)
           \<and> build_takes 2 quiet_env cfg_AB stage_B (takes stage_B) (f4cache s = None) s
               = Inr (True, s1)"
    using s by (simp add: stage_B_def)
  from th pre have
    eq: "build_dep (Suc 2) quiet_env cfg_AB ''y'' s
           = run_provider quiet_env cfg_AB ''y'' stage_B (dget (dep_paths s) ''y'') s1"
    and ex: "\<forall>b s'. build_dep (Suc 2) quiet_env cfg_AB ''y'' s = Inr (b, s')
               \<longrightarrow> b \<and> executed s' = executed s1 @ [stage_name stage_B]"
    by blast+
  have three: "Suc 2 = 3" by simp
  from eq s(8) s(12) have b3: "build_dep 3 quiet_env cfg_AB ''y'' s = Inr (True, s')"
    unfolding three by simp
  with ex have "executed s' = executed s1 @ [stage_name stage_B]"
    unfolding three by blast
  with s(11) have e: "executed s' = [''B'']" by (simp add: stage_B_def)
  note th3 = no_cache_never_short_circuits[OF s(2), where ev = quiet_env and dep = "''y''"
      and n = 3 and cfg = cfg_AB]
  from th3 b3 have "f4cache s' = None
       \<and> skipped_rebuilds (messages s') = skipped_rebuilds (messages s)"
    by blast
  with s(7) have k: "f4cache s' = None" "skipped_rebuilds (messages s') = []" by simp_all
  from s(1-6) twd b3 e k show ?thesis by blast
qed

section \<open>Properties of the Execution Driver\<close>










text \<open>
  C1. The check after the module's execution tests the Path-Set of the artifact being
  built for every required product, not the product's own. Stage \<^verbatim>\<open>S\<close> promises
  \<^verbatim>\<open>x\<close> and \<^verbatim>\<open>y\<close>; its module writes only the file of \<^verbatim>\<open>x\<close>; the build of \<^verbatim>\<open>x\<close>
  returns success with no exception although the file of \<^verbatim>\<open>y\<close> does not exist.
\<close>

theorem build_dep_misses_unproduced_required_output:
  "\<exists>s. flow_init 2 first_only_env ''x'' cfg_S None Map.empty = Inr s
      \<and> os_map s ''y'' = Some stage_S
      \<and> (\<exists>s'. build_dep 2 first_only_env cfg_S ''x'' s = Inr (True, s')
             \<and> executed s' = [''S'']
             \<and> dep_paths s' ''y'' = Some (PStr ''y.out'')
             \<and> p_req_exists (disk s') (PStr ''y.out'') = Inr False)"
  by (simp add: planner_defs driver_defs fixture_defs first_only_env_def cfg_S_def stage_S_def
        eval_nat_numeral)

section \<open>Properties of the planner\<close>


text \<open>
  C8. Stage \<^verbatim>\<open>C\<close> declares the required output \<^verbatim>\<open>c\<close>; when its dry-run mapping leaves
  \<^verbatim>\<open>c\<close> out, construction ends in \<^verbatim>\<open>NameError\<close> for the name \<^verbatim>\<open>fatal\<close>, an error that
  names neither the stage nor the output. Stage \<^verbatim>\<open>T\<close> declares the optional output
  \<^verbatim>\<open>z\<close> twice; when its dry-run mapping leaves \<^verbatim>\<open>z\<close> out, the second removal from the
  index raises \<^verbatim>\<open>KeyError\<close>. When the mapping of \<^verbatim>\<open>C\<close> leaves out only the optional
  \<^verbatim>\<open>z\<close>, construction succeeds, \<^verbatim>\<open>z\<close> has lost its entry in the index and \<^verbatim>\<open>c\<close> has
  kept its own.
\<close>

theorem missing_required_output_raises_NameError:
  "flow_init 1 empty_map_env ''c'' cfg_C None Map.empty = Inl (NameError ''fatal'')
   \<and> flow_init 1 empty_map_env ''z'' cfg_T None Map.empty = Inl (KeyError ''z'')
   \<and> map_sum id (\<lambda>s. (os_map s ''z'', os_map s ''c''))
         (flow_init 1 required_only_env ''c'' cfg_C None Map.empty) = Inr (None, Some stage_C)"
  by (simp add: planner_defs fixture_defs empty_map_env_def required_only_env_def
        cfg_C_def cfg_T_def stage_C_def stage_twice_def)





end
